theory Spec2Isabelle
  imports Main "HOL-Library.Sublist"
begin

section \<open>Python values, exceptions and documents\<close>

text \<open>
  Exceptions of the source are values. \<open>ValueError\<close> and \<open>RuntimeError\<close> are the two
  the repository raises itself; \<open>UpstreamError\<close> stands for any exception coming out of a
  collaborator (the embedding service, the vector database, the language model).
  \<open>str_of\<close> is Python's \<open>str(e)\<close>: the message of the exception.
\<close>

datatype error = ValueError string | RuntimeError string | UpstreamError string

fun str_of :: "error \<Rightarrow> string" where
  "str_of (ValueError m) = m"
| "str_of (RuntimeError m) = m"
| "str_of (UpstreamError m) = m"

type_synonym 'a result = "error + 'a"

text \<open>
  The values that occur in the result dictionaries of \<open>qa_chain.py\<close> and \<open>main.py\<close>,
  with Python's truth value of each. A dictionary is an association list in insertion
  order; \<open>map_of\<close> is the lookup \<open>d.get(key)\<close>.
\<close>

datatype pyval = PyStr string | PyInt int | PyBool bool | PyDict "(string \<times> pyval) list"

fun truthy :: "pyval \<Rightarrow> bool" where
  "truthy (PyStr s) = (s \<noteq> [])"
| "truthy (PyInt n) = (n \<noteq> 0)"
| "truthy (PyBool b) = b"
| "truthy (PyDict d) = (d \<noteq> [])"

type_synonym pydict = "(string \<times> pyval) list"

text \<open>
  A summary \<open>Document\<close> as \<open>add_documents_to_retriever\<close> builds it: the summary text and
  the three metadata entries \<open>doc_id\<close> (the \<open>id_key\<close>), \<open>content_type\<close> and \<open>index\<close>.
\<close>

record document =
  page_content :: string
  meta_doc_id :: string
  meta_content_type :: string
  meta_index :: nat

section \<open>The two stores\<close>

text \<open>
  The retriever owns a vector store (the summary index: every summary document with the
  embedding computed for it, in insertion order) and a document store (the content
  store: an in-memory dictionary from id to original content). \<open>uuid_count\<close> counts the
  calls of \<open>uuid.uuid4()\<close> made so far; the generator itself is the parameter \<open>uuid4\<close>
  of the operations, the \<open>n\<close>-th id it hands out being \<open>uuid4 n\<close>.
\<close>

record 'v retriever_state =
  vectorstore :: "(document \<times> 'v) list"
  docstore :: "(string \<times> string) list"
  uuid_count :: nat

definition id_key :: string where
  "id_key = ''doc_id''"

definition search_kwargs_k :: nat where
  "search_kwargs_k = 4"

text \<open>
  \<open>_setup_retriever\<close>: the vector store is opened on its persist directory, so it starts
  with whatever an earlier run left there (\<open>persisted\<close>); the document store is a new
  in-memory dictionary.
\<close>

definition init_retriever :: "(document \<times> 'v) list \<Rightarrow> 'v retriever_state" where
  "init_retriever persisted = \<lparr>vectorstore = persisted, docstore = [], uuid_count = 0\<rparr>"

text \<open>
  \<open>InMemoryStore\<close>: \<open>mset\<close> assigns \<open>store[key] = value\<close> for each pair in turn,
  \<open>mget\<close> returns \<open>store.get(key)\<close> for each key.
\<close>

fun store_set :: "string \<Rightarrow> string \<Rightarrow> (string \<times> string) list \<Rightarrow> (string \<times> string) list" where
  "store_set k v [] = [(k, v)]"
| "store_set k v ((k', v') # m) =
     (if k = k' then (k, v) # m else (k', v') # store_set k v m)"

fun mset :: "(string \<times> string) list \<Rightarrow> (string \<times> string) list \<Rightarrow> (string \<times> string) list" where
  "mset [] m = m"
| "mset ((k, v) # kvs) m = mset kvs (store_set k v m)"

definition mget :: "string list \<Rightarrow> (string \<times> string) list \<Rightarrow> string option list" where
  "mget ks m = map (map_of m) ks"

text \<open>
  The vector store's \<open>add_documents\<close>: the texts of all documents are embedded first
  (the embedding collaborator \<open>emb\<close> may fail), then the documents are appended.
\<close>

fun embed_documents :: "(string \<Rightarrow> 'v result) \<Rightarrow> string list \<Rightarrow> 'v list result" where
  "embed_documents emb [] = Inr []"
| "embed_documents emb (t # ts) =
     (case emb t of
        Inl e \<Rightarrow> Inl e
      | Inr v \<Rightarrow> (case embed_documents emb ts of
                    Inl e \<Rightarrow> Inl e
                  | Inr vs \<Rightarrow> Inr (v # vs)))"

definition add_documents ::
  "(string \<Rightarrow> 'v result) \<Rightarrow> document list \<Rightarrow> (document \<times> 'v) list \<Rightarrow> (document \<times> 'v) list result" where
  "add_documents emb docs vs =
     (case embed_documents emb (map page_content docs) of
        Inl e \<Rightarrow> Inl e
      | Inr es \<Rightarrow> Inr (vs @ zip docs es))"

section \<open>Ingestion\<close>

definition mismatch_message :: "string \<Rightarrow> string" where
  "mismatch_message ctype = ''Mismatch in '' @ ctype @ '' summaries and original content lengths''"

definition summary_docs_of :: "string list \<Rightarrow> string list \<Rightarrow> string \<Rightarrow> document list" where
  "summary_docs_of doc_ids summaries ctype =
     map (\<lambda>(i, summary).
            \<lparr>page_content = summary, meta_doc_id = doc_ids ! i,
             meta_content_type = ctype, meta_index = i\<rparr>)
         (enumerate 0 summaries)"

text \<open>
  \<open>add_documents_to_retriever\<close> returns the outcome of the call (\<open>Inr ()\<close> for a normal
  return, \<open>Inl e\<close> for the exception that leaves it) together with the state it leaves.
\<close>

definition add_documents_to_retriever ::
  "(string \<Rightarrow> 'v result) \<Rightarrow> (nat \<Rightarrow> string) \<Rightarrow> string list \<Rightarrow> string list \<Rightarrow> string
     \<Rightarrow> 'v retriever_state \<Rightarrow> unit result \<times> 'v retriever_state" where
  "add_documents_to_retriever emb uuid4 summaries original_contents ctype st =
     (if summaries = [] \<or> original_contents = [] then (Inr (), st)
      else if length summaries \<noteq> length original_contents
        then (Inl (ValueError (mismatch_message ctype)), st)
      else
        let doc_ids = map uuid4 [uuid_count st ..< uuid_count st + length summaries];
            st1 = st\<lparr>uuid_count := uuid_count st + length summaries\<rparr>;
            summary_docs = summary_docs_of doc_ids summaries ctype
        in (case add_documents emb summary_docs (vectorstore st1) of
              Inl e \<Rightarrow> (Inl e, st1)
            | Inr vs \<Rightarrow>
                (Inr (), st1\<lparr>vectorstore := vs,
                            docstore := mset (zip doc_ids original_contents) (docstore st1)\<rparr>)))"

text \<open>
  \<open>add_all_content\<close> ingests text, tables and images in this order; an exception of one
  call leaves the function at once, with what the earlier calls wrote.
\<close>

definition add_all_content ::
  "(string \<Rightarrow> 'v result) \<Rightarrow> (nat \<Rightarrow> string) \<Rightarrow> string list \<Rightarrow> string list \<Rightarrow> string list
     \<Rightarrow> string list \<Rightarrow> string list \<Rightarrow> 'v retriever_state \<Rightarrow> unit result \<times> 'v retriever_state" where
  "add_all_content emb uuid4 text_summaries text_elements table_summaries table_elements
       image_summaries st =
     (case (if text_summaries \<noteq> [] \<and> text_elements \<noteq> []
            then add_documents_to_retriever emb uuid4 text_summaries text_elements ''text'' st
            else (Inr (), st)) of
        (Inl e, st1) \<Rightarrow> (Inl e, st1)
      | (Inr _, st1) \<Rightarrow>
     (case (if table_summaries \<noteq> [] \<and> table_elements \<noteq> []
            then add_documents_to_retriever emb uuid4 table_summaries table_elements ''table'' st1
            else (Inr (), st1)) of
        (Inl e, st2) \<Rightarrow> (Inl e, st2)
      | (Inr _, st2) \<Rightarrow>
          (if image_summaries \<noteq> []
           then add_documents_to_retriever emb uuid4 image_summaries image_summaries ''image'' st2
           else (Inr (), st2))))"

section \<open>Search\<close>

text \<open>
  Modelled from the spec: the ranking inside the vector store (the Chroma collection) is
  not part of the repository. After section 4.2 of the specification the index orders its
  entries by descending similarity, ties in insertion order: a stable insertion sort on
  the score \<open>key\<close>, which takes its values in any linear order.
\<close>

fun insert_desc :: "('a \<Rightarrow> 's::linorder) \<Rightarrow> 'a \<Rightarrow> 'a list \<Rightarrow> 'a list" where
  "insert_desc key x [] = [x]"
| "insert_desc key x (y # ys) =
     (if key y \<le> key x then x # y # ys else y # insert_desc key x ys)"

definition rank_desc :: "('a \<Rightarrow> 's::linorder) \<Rightarrow> 'a list \<Rightarrow> 'a list" where
  "rank_desc key xs = foldr (insert_desc key) xs []"

text \<open>
  Modelled from the spec: \<open>vectorstore.similarity_search\<close> belongs to the vector
  database, not to the repository. After section 4.2 of the specification it embeds the
  query (the collaborator \<open>emb\<close>, which may fail) and returns the \<open>k\<close> entries most
  similar to it, most similar first; the similarity \<open>sim\<close> is a parameter.
\<close>

definition similarity_search ::
  "(string \<Rightarrow> 'v result) \<Rightarrow> ('v \<Rightarrow> 'v \<Rightarrow> 's::linorder) \<Rightarrow> (document \<times> 'v) list \<Rightarrow> string \<Rightarrow> nat
     \<Rightarrow> (document \<times> 'v) list result" where
  "similarity_search emb sim vs query k =
     (case emb query of
        Inl e \<Rightarrow> Inl e
      | Inr qv \<Rightarrow> Inr (take k (rank_desc (\<lambda>entry. sim qv (snd entry)) vs)))"

text \<open>
  Modelled from the spec: \<open>MultiVectorRetriever.invoke\<close> belongs to the retrieval library,
  not to the repository. After section 4.3 of the specification (steps 2 to 4) the ids of
  the hits are looked up in the content store in ranking order, and a hit whose id has no
  entry there is dropped. The number of hits asked for is the \<open>search_kwargs\<close> the
  repository passes in \<open>_setup_retriever\<close>.
\<close>

definition retriever_invoke ::
  "(string \<Rightarrow> 'v result) \<Rightarrow> ('v \<Rightarrow> 'v \<Rightarrow> 's::linorder) \<Rightarrow> 'v retriever_state \<Rightarrow> string
     \<Rightarrow> string list result" where
  "retriever_invoke emb sim st query =
     (case similarity_search emb sim (vectorstore st) query search_kwargs_k of
        Inl e \<Rightarrow> Inl e
      | Inr sub_docs \<Rightarrow>
          Inr (List.map_filter (\<lambda>d. d)
                 (mget (map (\<lambda>entry. meta_doc_id (fst entry)) sub_docs) (docstore st))))"

text \<open>
  Python's \<open>xs[:k]\<close> for an integer \<open>k\<close>: a negative \<open>k\<close> counts from the end.
\<close>

definition py_slice_to :: "int \<Rightarrow> 'a list \<Rightarrow> 'a list" where
  "py_slice_to k xs =
     (if 0 \<le> k then take (nat k) xs else take (nat (int (length xs) + k)) xs)"

text \<open>
  \<open>search\<close>: the whole body is inside \<open>try\<close>, and the \<open>except\<close> clause returns a list
  holding the message. What the retriever returns is a list of the stored strings, so
  the \<open>isinstance\<close> test holds and \<open>str(doc)\<close> is the string itself.
\<close>

definition search ::
  "(string \<Rightarrow> 'v result) \<Rightarrow> ('v \<Rightarrow> 'v \<Rightarrow> 's::linorder) \<Rightarrow> 'v retriever_state \<Rightarrow> string \<Rightarrow> int
     \<Rightarrow> string list result" where
  "search emb sim st query k =
     (case retriever_invoke emb sim st query of
        Inl e \<Rightarrow> Inr [''Search error: '' @ str_of e]
      | Inr results \<Rightarrow> Inr (py_slice_to k results))"

definition get_stats :: "'v retriever_state \<Rightarrow> pydict" where
  "get_stats st =
     [(''vector_documents'', PyInt (int (length (vectorstore st)))),
      (''stored_documents'', PyInt (int (length (docstore st)))),
      (''collection_name'', PyStr ''multimodal_summaries'')]"

section \<open>Summarisation\<close>

text \<open>
  Each summariser loops over its elements, appending the collaborator's answer or, when
  the call raises, a message built from the first 100 characters of the exception text.
\<close>

definition error_summary :: "string \<Rightarrow> error \<Rightarrow> string" where
  "error_summary kind e = ''Error processing '' @ kind @ '': '' @ take 100 (str_of e) @ ''...''"

fun summarize_loop ::
  "(string \<Rightarrow> string result) \<Rightarrow> string \<Rightarrow> string list \<Rightarrow> string list \<Rightarrow> string list" where
  "summarize_loop chain kind [] summaries = summaries"
| "summarize_loop chain kind (x # xs) summaries =
     (case chain x of
        Inr summary \<Rightarrow> summarize_loop chain kind xs (summaries @ [summary])
      | Inl e \<Rightarrow> summarize_loop chain kind xs (summaries @ [error_summary kind e]))"

definition summarize_text_elements :: "(string \<Rightarrow> string result) \<Rightarrow> string list \<Rightarrow> string list result" where
  "summarize_text_elements text_summarizer text_elements =
     Inr (summarize_loop text_summarizer ''text'' text_elements [])"

definition summarize_table_elements :: "(string \<Rightarrow> string result) \<Rightarrow> string list \<Rightarrow> string list result" where
  "summarize_table_elements table_summarizer table_elements =
     Inr (summarize_loop table_summarizer ''table'' table_elements [])"

definition summarize_image_elements :: "(string \<Rightarrow> string result) \<Rightarrow> string list \<Rightarrow> string list result" where
  "summarize_image_elements vision_chain image_elements =
     Inr (summarize_loop vision_chain ''image'' image_elements [])"

section \<open>The question answering chain\<close>

fun join :: "string \<Rightarrow> string list \<Rightarrow> string" where
  "join sep [] = []"
| "join sep [x] = x"
| "join sep (x # y # ys) = x @ sep @ join sep (y # ys)"

definition format_docs :: "string list \<Rightarrow> string" where
  "format_docs docs = join [CHR 0x0A, CHR 0x0A] (map (\<lambda>doc. ''Content: '' @ doc) docs)"

text \<open>
  The chain retrieves the context with \<open>search\<close> (default \<open>k = 4\<close>) on the question of
  its input dictionary \<open>{"question": question}\<close>, and hands the formatted context
  together with that whole dictionary (the \<open>question\<close> branch is a passthrough of the
  input) to the generation collaborator \<open>generate\<close> (prompt, language model and output
  parser), which may fail. \<open>batch\<close> runs the chain on every input and raises the first
  failure in input order.
\<close>

definition chain_invoke ::
  "(string \<Rightarrow> 'v result) \<Rightarrow> ('v \<Rightarrow> 'v \<Rightarrow> 's::linorder) \<Rightarrow> (string \<Rightarrow> pydict \<Rightarrow> string result)
     \<Rightarrow> 'v retriever_state \<Rightarrow> string \<Rightarrow> string result" where
  "chain_invoke emb sim generate st question =
     (case search emb sim st question 4 of
        Inl e \<Rightarrow> Inl e
      | Inr docs \<Rightarrow> generate (format_docs docs) [(''question'', PyStr question)])"

fun chain_batch ::
  "(string \<Rightarrow> 'v result) \<Rightarrow> ('v \<Rightarrow> 'v \<Rightarrow> 's::linorder) \<Rightarrow> (string \<Rightarrow> pydict \<Rightarrow> string result)
     \<Rightarrow> 'v retriever_state \<Rightarrow> string list \<Rightarrow> string list result" where
  "chain_batch emb sim generate st [] = Inr []"
| "chain_batch emb sim generate st (q # qs) =
     (case chain_invoke emb sim generate st q of
        Inl e \<Rightarrow> Inl e
      | Inr a \<Rightarrow> (case chain_batch emb sim generate st qs of
                    Inl e \<Rightarrow> Inl e
                  | Inr as \<Rightarrow> Inr (a # as)))"

definition ask_error :: "string \<Rightarrow> error \<Rightarrow> pydict" where
  "ask_error question e =
     [(''question'', PyStr question),
      (''answer'', PyStr (''Error processing question: '' @ str_of e)),
      (''context_used'', PyInt 0),
      (''error'', PyBool True)]"

definition ask ::
  "(string \<Rightarrow> 'v result) \<Rightarrow> ('v \<Rightarrow> 'v \<Rightarrow> 's::linorder) \<Rightarrow> (string \<Rightarrow> pydict \<Rightarrow> string result)
     \<Rightarrow> 'v retriever_state \<Rightarrow> string \<Rightarrow> pydict result" where
  "ask emb sim generate st question =
     (case chain_invoke emb sim generate st question of
        Inl e \<Rightarrow> Inr (ask_error question e)
      | Inr answer \<Rightarrow>
          (case search emb sim st question 4 of
             Inl e \<Rightarrow> Inr (ask_error question e)
           | Inr context_docs \<Rightarrow>
               Inr [(''question'', PyStr question),
                    (''answer'', PyStr answer),
                    (''context_used'', PyInt (int (length context_docs))),
                    (''retriever_stats'', PyDict (get_stats st))]))"

definition batch_ask ::
  "(string \<Rightarrow> 'v result) \<Rightarrow> ('v \<Rightarrow> 'v \<Rightarrow> 's::linorder) \<Rightarrow> (string \<Rightarrow> pydict \<Rightarrow> string result)
     \<Rightarrow> 'v retriever_state \<Rightarrow> string list \<Rightarrow> pydict list result" where
  "batch_ask emb sim generate st questions =
     (case chain_batch emb sim generate st questions of
        Inl e \<Rightarrow>
          Inr (map (\<lambda>q. [(''question'', PyStr q),
                          (''answer'', PyStr (''Batch error: '' @ str_of e)),
                          (''error'', PyBool True)]) questions)
      | Inr answers \<Rightarrow>
          Inr (map (\<lambda>(i, question, answer).
                      [(''question'', PyStr question),
                       (''answer'', PyStr answer),
                       (''batch_index'', PyInt (int i))])
                   (enumerate 0 (zip questions answers))))"

section \<open>The application\<close>

text \<open>
  \<open>MultiModalRAGApp\<close> holds the retriever and the chain; \<open>qa_chain\<close> is \<open>None\<close> (here
  \<open>False\<close>) until \<open>setup_retrieval\<close> has built it. The chain keeps a reference to the
  retriever, so it always searches the current stores.
\<close>

record 'v app =
  retriever :: "'v retriever_state"
  qa_chain :: bool

definition init_app :: "(document \<times> 'v) list \<Rightarrow> 'v app" where
  "init_app persisted = \<lparr>retriever = init_retriever persisted, qa_chain = False\<rparr>"

definition setup_retrieval ::
  "(string \<Rightarrow> 'v result) \<Rightarrow> (nat \<Rightarrow> string) \<Rightarrow> string list \<Rightarrow> string list \<Rightarrow> string list
     \<Rightarrow> string list \<Rightarrow> string list \<Rightarrow> 'v app \<Rightarrow> unit result \<times> 'v app" where
  "setup_retrieval emb uuid4 text_summaries text_elements table_summaries table_elements
       image_summaries a =
     (case add_all_content emb uuid4 text_summaries text_elements table_summaries
             table_elements image_summaries (retriever a) of
        (Inl e, st) \<Rightarrow> (Inl e, a\<lparr>retriever := st\<rparr>)
      | (Inr _, st) \<Rightarrow> (Inr (), a\<lparr>retriever := st, qa_chain := True\<rparr>))"

definition ask_question ::
  "(string \<Rightarrow> 'v result) \<Rightarrow> ('v \<Rightarrow> 'v \<Rightarrow> 's::linorder) \<Rightarrow> (string \<Rightarrow> pydict \<Rightarrow> string result)
     \<Rightarrow> 'v app \<Rightarrow> string \<Rightarrow> pydict result" where
  "ask_question emb sim generate a question =
     (if \<not> qa_chain a then Inr [(''error'', PyStr ''Q&A chain not initialized'')]
      else ask emb sim generate (retriever a) question)"

text \<open>
  A session is a sequence of calls on the application object. \<open>trace\<close> lists the states
  the application goes through, and \<open>transitions\<close> counts the steps of a trace at which
  the chain goes from not built to built.
\<close>

datatype call =
    SetupRetrieval "string list" "string list" "string list" "string list" "string list"
  | AskQuestion string

fun step ::
  "(string \<Rightarrow> 'v result) \<Rightarrow> (nat \<Rightarrow> string) \<Rightarrow> call \<Rightarrow> 'v app \<Rightarrow> 'v app" where
  "step emb uuid4 (SetupRetrieval ts te bs be ims) a =
     snd (setup_retrieval emb uuid4 ts te bs be ims a)"
| "step emb uuid4 (AskQuestion q) a = a"

fun trace ::
  "(string \<Rightarrow> 'v result) \<Rightarrow> (nat \<Rightarrow> string) \<Rightarrow> call list \<Rightarrow> 'v app \<Rightarrow> 'v app list" where
  "trace emb uuid4 [] a = [a]"
| "trace emb uuid4 (c # cs) a = a # trace emb uuid4 cs (step emb uuid4 c a)"

fun transitions :: "bool list \<Rightarrow> nat" where
  "transitions (x # y # ys) = (if \<not> x \<and> y then 1 else 0) + transitions (y # ys)"
| "transitions _ = 0"

section \<open>Example collaborators and stores\<close>

text \<open>
  Concrete collaborators on which the theorems below are instantiated: an embedding that
  maps a text to its length, one that is out of service, a similarity that prefers the
  nearest length, an id generator, and a generation collaborator that fails on one
  question.
\<close>

definition emb_len :: "string \<Rightarrow> nat result" where
  "emb_len t = Inr (length t)"

definition emb_down :: "string \<Rightarrow> nat result" where
  "emb_down t = Inl (UpstreamError ''connection refused'')"

definition sim_near :: "nat \<Rightarrow> nat \<Rightarrow> int" where
  "sim_near q v = - \<bar>int q - int v\<bar>"

definition uuid_seq :: "nat \<Rightarrow> string" where
  "uuid_seq n = ''id-'' @ replicate n CHR ''x''"

definition gen_demo :: "string \<Rightarrow> pydict \<Rightarrow> string result" where
  "gen_demo context inp =
     (if inp = [(''question'', PyStr ''bad'')] then Inl (UpstreamError ''rate limit'')
      else Inr ''an answer'')"

definition two_texts :: "nat retriever_state" where
  "two_texts =
     snd (add_documents_to_retriever emb_len uuid_seq [''s'', ''ss''] [''A'', ''B''] ''text''
            (init_retriever []))"

definition five_texts :: "nat retriever_state" where
  "five_texts =
     snd (add_documents_to_retriever emb_len uuid_seq
            [''s'', ''ss'', ''sss'', ''ssss'', ''sssss''] [''A'', ''B'', ''C'', ''D'', ''E'']
            ''text'' (init_retriever []))"

definition mixed_store :: "nat retriever_state" where
  "mixed_store =
     snd (add_all_content emb_len uuid_seq [''t''] [''TEXT''] [''tb''] [''<table/>'']
            [''a chart'', ''a logo''] (init_retriever []))"

definition demo_session :: "call list" where
  "demo_session =
     [AskQuestion ''What is in the image?'',
      SetupRetrieval [''s'', ''ss''] [''A''] [] [] [],
      SetupRetrieval [''s''] [''A''] [] [] [''a chart''],
      AskQuestion ''What is in the image?'',
      SetupRetrieval [] [] [] [] [''a logo'']]"

section \<open>Helper lemmas\<close>

lemma map_of_store_set: "map_of (store_set k v m) = (map_of m)(k \<mapsto> v)"
  by (induction m) (auto simp: fun_eq_iff)

lemma map_of_mset: "map_of (mset kvs m) = map_of m ++ map_of (rev kvs)"
proof (induction kvs arbitrary: m)
  case Nil
  then show ?case by simp
next
  case (Cons kv kvs)
  obtain k v where kv: "kv = (k, v)" by (cases kv)
  show ?case
    unfolding kv by (simp add: Cons.IH map_of_store_set fun_eq_iff map_add_def split: option.splits)
qed

lemma mset_lookup:
  assumes "distinct (map fst kvs)" and "(k, v) \<in> set kvs"
  shows "map_of (mset kvs m) k = Some v"
proof -
  have "distinct (map fst (rev kvs))" using assms(1) by (simp add: rev_map[symmetric])
  moreover have "(k, v) \<in> set (rev kvs)" using assms(2) by simp
  ultimately have "map_of (rev kvs) k = Some v" by (rule map_of_is_SomeI)
  then show ?thesis by (simp add: map_of_mset map_add_def)
qed

lemma embed_documents_Inr:
  "embed_documents emb ts = Inr es \<Longrightarrow>
     length es = length ts \<and> (\<forall>i < length ts. emb (ts ! i) = Inr (es ! i))"
proof (induction ts arbitrary: es)
  case Nil
  then show ?case by simp
next
  case (Cons t ts)
  then show ?case
    by (auto split: sum.splits simp: nth_Cons split: nat.splits)
qed

lemma length_summary_docs_of [simp]:
  "length (summary_docs_of doc_ids summaries ctype) = length summaries"
  by (simp add: summary_docs_of_def)

lemma nth_summary_docs_of:
  "i < length summaries \<Longrightarrow>
     summary_docs_of doc_ids summaries ctype ! i =
       \<lparr>page_content = summaries ! i, meta_doc_id = doc_ids ! i,
        meta_content_type = ctype, meta_index = i\<rparr>"
  by (simp add: summary_docs_of_def nth_enumerate_eq)

lemma page_content_summary_docs_of [simp]:
  "map page_content (summary_docs_of doc_ids summaries ctype) = summaries"
  by (rule nth_equalityI) (simp_all add: nth_summary_docs_of)

lemma ingest_written:
  assumes ok: "add_documents_to_retriever emb uuid4 summaries original_contents ctype st = (Inr (), st')"
    and len: "length summaries = length original_contents"
    and fresh: "distinct (map uuid4 [uuid_count st ..< uuid_count st + length summaries])"
    and i: "i < length summaries"
  shows "(\<exists>v. emb (summaries ! i) = Inr v \<and>
            (\<lparr>page_content = summaries ! i, meta_doc_id = uuid4 (uuid_count st + i),
              meta_content_type = ctype, meta_index = i\<rparr>, v) \<in> set (vectorstore st')) \<and>
         map_of (docstore st') (uuid4 (uuid_count st + i)) = Some (original_contents ! i)"
proof -
  define doc_ids where "doc_ids = map uuid4 [uuid_count st ..< uuid_count st + length summaries]"
  define docs where "docs = summary_docs_of doc_ids summaries ctype"
  have ne: "summaries \<noteq> []" "original_contents \<noteq> []" using i len by auto
  have idi: "doc_ids ! i = uuid4 (uuid_count st + i)" using i by (simp add: doc_ids_def)
  have ldi: "length doc_ids = length summaries" by (simp add: doc_ids_def)
  obtain es where es: "embed_documents emb summaries = Inr es"
    and st': "st' = st\<lparr>uuid_count := uuid_count st + length summaries,
                       vectorstore := vectorstore st @ zip docs es,
                       docstore := mset (zip doc_ids original_contents) (docstore st)\<rparr>"
    using ok ne len
    by (auto simp: add_documents_to_retriever_def add_documents_def Let_def doc_ids_def docs_def
             split: sum.splits)
  from embed_documents_Inr[OF es] i
  have les: "length es = length summaries" and ei: "emb (summaries ! i) = Inr (es ! i)" by auto
  have "zip docs es ! i = (docs ! i, es ! i)" using i les by (simp add: docs_def)
  moreover have "i < length (zip docs es)" using i les by (simp add: docs_def)
  ultimately have "(docs ! i, es ! i) \<in> set (zip docs es)" by (metis nth_mem)
  then have vs: "(docs ! i, es ! i) \<in> set (vectorstore st')" by (simp add: st')
  have di: "docs ! i = \<lparr>page_content = summaries ! i, meta_doc_id = uuid4 (uuid_count st + i),
              meta_content_type = ctype, meta_index = i\<rparr>"
    using i by (simp add: docs_def nth_summary_docs_of idi)
  have "(doc_ids ! i, original_contents ! i) \<in> set (zip doc_ids original_contents)"
    using i len ldi by (metis length_zip min.idem nth_zip nth_mem)
  moreover have "distinct (map fst (zip doc_ids original_contents))"
    using fresh len ldi by (simp add: doc_ids_def)
  ultimately have "map_of (mset (zip doc_ids original_contents) (docstore st)) (doc_ids ! i)
                     = Some (original_contents ! i)"
    by (rule mset_lookup[rotated])
  then show ?thesis using vs di ei idi by (auto simp: st')
qed

lemma uuid_seq_inj: "inj uuid_seq"
proof (rule injI)
  fix m n assume "uuid_seq m = uuid_seq n"
  then have "length (uuid_seq m) = length (uuid_seq n)" by simp
  then show "m = n" by (simp add: uuid_seq_def)
qed

lemma two_texts_eq:
  "two_texts =
     \<lparr>vectorstore =
        [(\<lparr>page_content = ''s'', meta_doc_id = ''id-'', meta_content_type = ''text'',
           meta_index = 0\<rparr>, 1),
         (\<lparr>page_content = ''ss'', meta_doc_id = ''id-x'', meta_content_type = ''text'',
           meta_index = 1\<rparr>, 2)],
      docstore = [(''id-'', ''A''), (''id-x'', ''B'')], uuid_count = 2\<rparr>"
  by code_simp

text \<open>
  C1 (pairing invariant). When \<open>add_documents_to_retriever\<close> returns normally on summaries
  and originals of equal length, and the ids drawn for the call are pairwise different,
  then for every index \<open>i\<close> the id of pair \<open>i\<close> is in both stores: the vector store holds
  the summary document of \<open>summaries ! i\<close> tagged with that id, and the document store
  maps the id to \<open>original_contents ! i\<close>.
\<close>

theorem pairing_invariant:
  assumes "add_documents_to_retriever emb uuid4 summaries original_contents ctype st = (Inr (), st')"
    and "length summaries = length original_contents"
    and "distinct (map uuid4 [uuid_count st ..< uuid_count st + length summaries])"
    and "i < length summaries"
  shows "(\<exists>v. emb (summaries ! i) = Inr v \<and>
            (\<lparr>page_content = summaries ! i, meta_doc_id = uuid4 (uuid_count st + i),
              meta_content_type = ctype, meta_index = i\<rparr>, v) \<in> set (vectorstore st')) \<and>
         map_of (docstore st') (uuid4 (uuid_count st + i)) = Some (original_contents ! i)"
  using assms by (rule ingest_written)

text \<open>The invariant on the ingestion of two text pairs into an empty retriever.\<close>

theorem pairing_invariant_witness:
  "add_documents_to_retriever emb_len uuid_seq [''s'', ''ss''] [''A'', ''B''] ''text''
      (init_retriever []) = (Inr (), two_texts) \<and>
   length [''s'', ''ss''] = length [''A'', ''B''] \<and>
   distinct (map uuid_seq [uuid_count (init_retriever [] :: nat retriever_state) ..<
                            uuid_count (init_retriever [] :: nat retriever_state) + length [''s'', ''ss'']]) \<and>
   (1::nat) < length [''s'', ''ss''] \<and>
   (\<exists>v. emb_len ''ss'' = Inr v \<and>
        (\<lparr>page_content = ''ss'', meta_doc_id = uuid_seq 1, meta_content_type = ''text'',
          meta_index = 1\<rparr>, v) \<in> set (vectorstore two_texts)) \<and>
   map_of (docstore two_texts) (uuid_seq 1) = Some ''B''"
proof -
  have h1: "add_documents_to_retriever emb_len uuid_seq [''s'', ''ss''] [''A'', ''B''] ''text''
      (init_retriever []) = (Inr (), two_texts)"
    by code_simp
  have h2: "length [''s'', ''ss''] = length [''A'', ''B'']" by simp
  have h3: "distinct (map uuid_seq [uuid_count (init_retriever [] :: nat retriever_state) ..<
                            uuid_count (init_retriever [] :: nat retriever_state) + length [''s'', ''ss'']])"
    by code_simp
  have h4: "(1::nat) < length [''s'', ''ss'']" by simp
  from pairing_invariant[OF h1 h2 h3 h4] h1 h2 h3 h4 show ?thesis
    by (simp add: init_retriever_def)
qed

text \<open>
  C7 (empty input). When the summaries or the originals are empty,
  \<open>add_documents_to_retriever\<close> returns normally and leaves the whole state, so both
  stores with their contents and counts, as it was, for every content type.
\<close>

theorem empty_input_noop:
  "summaries = [] \<or> original_contents = [] \<Longrightarrow>
     add_documents_to_retriever emb uuid4 summaries original_contents ctype st = (Inr (), st)"
  by (auto simp: add_documents_to_retriever_def)

text \<open>An empty list of table summaries next to one table: nothing is written.\<close>

theorem empty_input_noop_witness:
  "(([]::string list) = [] \<or> [''<table>1</table>''] = ([]::string list)) \<and>
   add_documents_to_retriever emb_len uuid_seq [] [''<table>1</table>''] ''table'' two_texts
     = (Inr (), two_texts)"
proof -
  have h: "([]::string list) = [] \<or> [''<table>1</table>''] = ([]::string list)" by simp
  from empty_input_noop[OF h] h show ?thesis by blast
qed

text \<open>
  C2 as stated fails when exactly one of the two lists is empty: the emptiness test comes
  first, so the call returns normally and raises nothing.
\<close>

theorem mismatch_one_empty_counterexample:
  "length [''s''] \<noteq> length ([]::string list) \<and>
   add_documents_to_retriever emb_len uuid_seq [''s''] [] ''text'' two_texts
     = (Inr (), two_texts)"
  by (simp add: add_documents_to_retriever_def)

text \<open>
  C2 (mismatch rejection), amended. When both lists are non-empty and their lengths
  differ, \<open>add_documents_to_retriever\<close> raises the \<open>ValueError\<close> with the mismatch
  message and leaves the state, so both stores, exactly as it was.
\<close>

theorem mismatch_rejected:
  "summaries \<noteq> [] \<Longrightarrow> original_contents \<noteq> [] \<Longrightarrow>
   length summaries \<noteq> length original_contents \<Longrightarrow>
     add_documents_to_retriever emb uuid4 summaries original_contents ctype st =
       (Inl (ValueError (mismatch_message ctype)), st)"
  by (simp add: add_documents_to_retriever_def)

text \<open>Two summaries against one original.\<close>

theorem mismatch_rejected_witness:
  "[''s'', ''ss''] \<noteq> [] \<and> [''A''] \<noteq> [] \<and> length [''s'', ''ss''] \<noteq> length [''A''] \<and>
   add_documents_to_retriever emb_len uuid_seq [''s'', ''ss''] [''A''] ''text'' two_texts =
     (Inl (ValueError ''Mismatch in text summaries and original content lengths''), two_texts)"
proof -
  have h1: "[''s'', ''ss''] \<noteq> []" and h2: "[''A''] \<noteq> []"
    and h3: "length [''s'', ''ss''] \<noteq> length [''A'']" by simp_all
  from mismatch_rejected[OF h1 h2 h3, of emb_len uuid_seq "''text''" two_texts] h1 h2 h3
  show ?thesis by (simp add: mismatch_message_def)
qed

text \<open>
  C3 as stated fails when the embedding collaborator is out of service: the failure of
  the retriever is not raised by \<open>search\<close> but returned inside the result list.
\<close>

theorem search_raise_counterexample:
  "retriever_invoke emb_down sim_near two_texts ''apples'' = Inl (UpstreamError ''connection refused'') \<and>
   search emb_down sim_near two_texts ''apples'' 4 = Inr [''Search error: connection refused'']"
  by (simp add: search_def retriever_invoke_def similarity_search_def emb_down_def)

text \<open>
  C3 (search error contract), amended. \<open>search\<close> never raises: it always returns a list.
  When the retriever fails with \<open>e\<close>, the list holds the one string
  \<open>Search error: \<close> followed by the message of \<open>e\<close>; when the retriever finds nothing,
  the list is empty.
\<close>

theorem search_never_raises:
  "(\<exists>r. search emb sim st query k = Inr r) \<and>
   (\<forall>e. retriever_invoke emb sim st query = Inl e \<longrightarrow>
        search emb sim st query k = Inr [''Search error: '' @ str_of e]) \<and>
   (retriever_invoke emb sim st query = Inr [] \<longrightarrow> search emb sim st query k = Inr [])"
  by (auto simp: search_def py_slice_to_def split: sum.splits)

text \<open>Both cases: an embedding service that is down, and an empty index.\<close>

theorem search_never_raises_witness:
  "retriever_invoke emb_down sim_near two_texts ''apples'' = Inl (UpstreamError ''connection refused'') \<and>
   search emb_down sim_near two_texts ''apples'' 1 = Inr [''Search error: connection refused''] \<and>
   retriever_invoke emb_len sim_near (init_retriever []) ''apples'' = Inr [] \<and>
   search emb_len sim_near (init_retriever []) ''apples'' 1 = Inr []"
proof -
  have h1: "retriever_invoke emb_down sim_near two_texts ''apples'' = Inl (UpstreamError ''connection refused'')"
    by (simp add: retriever_invoke_def similarity_search_def emb_down_def)
  have h2: "retriever_invoke emb_len sim_near (init_retriever []) ''apples'' = Inr []"
    by code_simp
  from search_never_raises[of emb_down sim_near two_texts "''apples''" 1] h1
  have c1: "search emb_down sim_near two_texts ''apples'' 1 = Inr [''Search error: connection refused'']"
    by simp
  from search_never_raises[of emb_len sim_near "init_retriever []" "''apples''" 1] h2
  have c2: "search emb_len sim_near (init_retriever []) ''apples'' 1 = Inr []"
    by simp
  from h1 c1 h2 c2 show ?thesis by blast
qed

lemma summarize_loop_map:
  "summarize_loop chain kind xs acc =
     acc @ map (\<lambda>x. case chain x of Inr summary \<Rightarrow> summary | Inl e \<Rightarrow> error_summary kind e) xs"
  by (induction xs arbitrary: acc) (auto split: sum.splits)

text \<open>
  C10 (summarisers). Each of the three summarisers returns normally, and its result has
  one entry per input element, in order: the collaborator's summary of the element, or,
  where the collaborator raised, the error message built from the exception. So the
  result is as long as the input.
\<close>

theorem summarizers_total:
  "summarize_text_elements text_summarizer xs =
     Inr (map (\<lambda>x. case text_summarizer x of Inr s \<Rightarrow> s
                   | Inl e \<Rightarrow> ''Error processing text: '' @ take 100 (str_of e) @ ''...'') xs) \<and>
   summarize_table_elements table_summarizer ys =
     Inr (map (\<lambda>x. case table_summarizer x of Inr s \<Rightarrow> s
                   | Inl e \<Rightarrow> ''Error processing table: '' @ take 100 (str_of e) @ ''...'') ys) \<and>
   summarize_image_elements vision_chain zs =
     Inr (map (\<lambda>x. case vision_chain x of Inr s \<Rightarrow> s
                   | Inl e \<Rightarrow> ''Error processing image: '' @ take 100 (str_of e) @ ''...'') zs) \<and>
   (\<exists>out. summarize_text_elements text_summarizer xs = Inr out \<and> length out = length xs) \<and>
   (\<exists>out. summarize_table_elements table_summarizer ys = Inr out \<and> length out = length ys) \<and>
   (\<exists>out. summarize_image_elements vision_chain zs = Inr out \<and> length out = length zs)"
  by (auto simp: summarize_text_elements_def summarize_table_elements_def
        summarize_image_elements_def summarize_loop_map error_summary_def split: sum.splits)

section \<open>Ranking\<close>

lemma set_insert_desc [simp]: "set (insert_desc key x ys) = insert x (set ys)"
  by (induction ys) auto

lemma set_rank_desc [simp]: "set (rank_desc key xs) = set xs"
  by (induction xs) (simp_all add: rank_desc_def)

lemma length_insert_desc [simp]: "length (insert_desc key x ys) = Suc (length ys)"
  by (induction ys) auto

lemma length_rank_desc [simp]: "length (rank_desc key xs) = length xs"
  by (induction xs) (simp_all add: rank_desc_def)

lemma sorted_insert_desc:
  "sorted_wrt (\<lambda>a b. key b \<le> key a) ys \<Longrightarrow>
     sorted_wrt (\<lambda>a b. key b \<le> key a) (insert_desc key x ys)"
  by (induction ys) (auto intro: order_trans)

lemma sorted_rank_desc: "sorted_wrt (\<lambda>a b. key b \<le> key a) (rank_desc key xs)"
  by (induction xs) (simp_all add: rank_desc_def sorted_insert_desc)

section \<open>Search\<close>

lemma retriever_invoke_Inr:
  assumes "emb query = Inr qv"
  shows "retriever_invoke emb sim st query =
     Inr (map (\<lambda>h. the (map_of (docstore st) (meta_doc_id (fst h))))
            (filter (\<lambda>h. map_of (docstore st) (meta_doc_id (fst h)) \<noteq> None)
               (take search_kwargs_k (rank_desc (\<lambda>entry. sim qv (snd entry)) (vectorstore st)))))"
  using assms
  by (simp add: retriever_invoke_def similarity_search_def mget_def List.map_filter_def
        filter_map comp_def)

lemma length_retriever_invoke:
  "retriever_invoke emb sim st query = Inr results \<Longrightarrow> length results \<le> 4"
proof -
  assume a: "retriever_invoke emb sim st query = Inr results"
  then obtain qv where qv: "emb query = Inr qv"
    by (auto simp: retriever_invoke_def similarity_search_def split: sum.splits)
  have "length (filter P (take search_kwargs_k xs)) \<le> 4" for P and xs :: "(document \<times> 'a) list"
    by (rule order_trans[OF length_filter_le]) (simp add: search_kwargs_k_def)
  with a show ?thesis
    unfolding retriever_invoke_Inr[where emb=emb and query=query and qv=qv, OF qv] by auto
qed

lemma py_slice_to_nonneg: "0 \<le> k \<Longrightarrow> py_slice_to k xs = take (nat k) xs"
  by (simp add: py_slice_to_def)

lemma py_slice_to_all: "int (length xs) \<le> k \<Longrightarrow> py_slice_to k xs = xs"
  by (simp add: py_slice_to_def)

lemma set_py_slice_to: "set (py_slice_to k xs) \<subseteq> set xs"
  by (auto simp: py_slice_to_def dest: in_set_takeD)

lemma prefix_take_Suc: "prefix (take n xs) (take (Suc n) xs)"
  by (metis Suc_n_not_le_n nat_le_linear take_is_prefix take_take min_def)

text \<open>
  C5 as stated fails for a negative \<open>k\<close> (the slice \<open>results[:k]\<close> then drops from the
  end: one result for \<open>k = -1\<close>, none for \<open>k = 0\<close>) and for \<open>k = 0\<close> when the retriever
  fails (the list with the error message has one entry).
\<close>

theorem search_order_truncation_counterexample:
  "search emb_len sim_near two_texts ''qq'' (- 1) = Inr [''B''] \<and>
   \<not> int (length [''B'']) \<le> - 1 \<and>
   search emb_len sim_near two_texts ''qq'' (- 1 + 1) = Inr [] \<and>
   \<not> prefix [''B''] ([]::string list) \<and>
   search emb_down sim_near two_texts ''qq'' 0 = Inr [''Search error: connection refused''] \<and>
   \<not> int (length [''Search error: connection refused'']) \<le> 0"
proof -
  have "search emb_len sim_near two_texts ''qq'' (- 1) = Inr [''B'']" by code_simp
  moreover have "search emb_len sim_near two_texts ''qq'' (- 1 + 1) = Inr []" by code_simp
  moreover have "search emb_down sim_near two_texts ''qq'' 0 = Inr [''Search error: connection refused'']"
    by (simp add: search_def retriever_invoke_def similarity_search_def emb_down_def)
  ultimately show ?thesis by simp
qed

text \<open>
  C5 (search ordering and truncation), amended. For \<open>k \<ge> 0\<close> and a query whose embedding
  succeeds, \<open>search\<close> returns at most \<open>k\<close> results, they are the stored contents of
  entries \<open>hits\<close> of the vector store listed by non-increasing similarity to the query
  embedding, and the result for \<open>k\<close> is a prefix of the result for \<open>k + 1\<close>.
\<close>

theorem search_order_truncation:
  assumes k: "0 \<le> k" and qv: "emb query = Inr qv"
  shows "\<exists>r r' hits.
           search emb sim st query k = Inr r \<and> length r \<le> nat k \<and>
           search emb sim st query (k + 1) = Inr r' \<and> prefix r r' \<and>
           set hits \<subseteq> set (vectorstore st) \<and>
           sorted_wrt (\<lambda>a b. sim qv (snd b) \<le> sim qv (snd a)) hits \<and>
           map (\<lambda>h. map_of (docstore st) (meta_doc_id (fst h))) hits = map Some r"
proof -
  define ranked where "ranked = rank_desc (\<lambda>entry. sim qv (snd entry)) (vectorstore st)"
  define found where
    "found = filter (\<lambda>h. map_of (docstore st) (meta_doc_id (fst h)) \<noteq> None)
               (take search_kwargs_k ranked)"
  define content where "content = (\<lambda>h :: document \<times> 'a. the (map_of (docstore st) (meta_doc_id (fst h))))"
  define hits where "hits = take (nat k) found"
  have inv: "retriever_invoke emb sim st query = Inr (map content found)"
    by (simp add: retriever_invoke_Inr[where emb=emb and query=query and qv=qv, OF qv]
          found_def ranked_def content_def)
  have s1: "search emb sim st query k = Inr (map content hits)"
    using k by (simp add: search_def inv py_slice_to_nonneg hits_def take_map)
  have s2: "search emb sim st query (k + 1) = Inr (map content (take (Suc (nat k)) found))"
    using k by (simp add: search_def inv py_slice_to_nonneg take_map nat_add_distrib)
  have len: "length (map content hits) \<le> nat k" by (simp add: hits_def)
  have pre: "prefix (map content hits) (map content (take (Suc (nat k)) found))"
    unfolding hits_def by (intro map_mono_prefix prefix_take_Suc)
  have sub: "set hits \<subseteq> set (vectorstore st)"
  proof
    fix h assume "h \<in> set hits"
    then have "h \<in> set found" unfolding hits_def by (rule in_set_takeD)
    then have "h \<in> set (take search_kwargs_k ranked)" by (simp add: found_def)
    then have "h \<in> set ranked" by (rule in_set_takeD)
    then show "h \<in> set (vectorstore st)" by (simp add: ranked_def)
  qed
  have "sorted_wrt (\<lambda>a b. sim qv (snd b) \<le> sim qv (snd a)) ranked"
    unfolding ranked_def by (rule sorted_rank_desc)
  then have "sorted_wrt (\<lambda>a b. sim qv (snd b) \<le> sim qv (snd a)) (take search_kwargs_k ranked)"
    by (rule sorted_wrt_take)
  then have "sorted_wrt (\<lambda>a b. sim qv (snd b) \<le> sim qv (snd a)) found"
    unfolding found_def by (rule sorted_wrt_filter)
  then have srt: "sorted_wrt (\<lambda>a b. sim qv (snd b) \<le> sim qv (snd a)) hits"
    unfolding hits_def by (rule sorted_wrt_take)
  have "\<forall>h \<in> set hits. map_of (docstore st) (meta_doc_id (fst h)) \<noteq> None"
    by (auto simp: hits_def found_def dest: in_set_takeD)
  then have lk: "map (\<lambda>h. map_of (docstore st) (meta_doc_id (fst h))) hits = map Some (map content hits)"
    by (auto simp: content_def)
  from s1 len s2 pre sub srt lk show ?thesis by blast
qed

text \<open>The amended claim on a store of five texts with \<open>k = 2\<close>.\<close>

theorem search_order_truncation_witness:
  "(0::int) \<le> 2 \<and> emb_len ''qq'' = Inr 2 \<and>
   (\<exists>r r' hits.
      search emb_len sim_near five_texts ''qq'' 2 = Inr r \<and> length r \<le> nat 2 \<and>
      search emb_len sim_near five_texts ''qq'' (2 + 1) = Inr r' \<and> prefix r r' \<and>
      set hits \<subseteq> set (vectorstore five_texts) \<and>
      sorted_wrt (\<lambda>a b. sim_near 2 (snd b) \<le> sim_near 2 (snd a)) hits \<and>
      map (\<lambda>h. map_of (docstore five_texts) (meta_doc_id (fst h))) hits = map Some r)"
proof -
  have h1: "(0::int) \<le> 2" by simp
  have h2: "emb_len ''qq'' = Inr 2" by (simp add: emb_len_def)
  from search_order_truncation[where k=2 and emb=emb_len and query="''qq''" and qv=2
         and sim=sim_near and st=five_texts, OF h1 h2] h1 h2
  show ?thesis by blast
qed

lemma search_five_example:
  "search emb_len sim_near five_texts ''qq'' 2 = Inr [''B'', ''A''] \<and>
   search emb_len sim_near five_texts ''qq'' 3 = Inr [''B'', ''A'', ''C'']"
  by code_simp

text \<open>
  C9 (result cap). For every \<open>k\<close> greater than 4, \<open>search\<close> returns at most 4 results,
  and exactly what it returns for \<open>k = 4\<close>: the retriever is asked for the top 4 and the
  parameter \<open>k\<close> only cuts that list.
\<close>

theorem result_cap:
  "4 < k \<Longrightarrow>
     \<exists>r. search emb sim st query k = Inr r \<and> length r \<le> 4 \<and> search emb sim st query 4 = Inr r"
proof -
  assume k: "4 < k"
  show ?thesis
  proof (cases "retriever_invoke emb sim st query")
    case (Inl e)
    then show ?thesis by (simp add: search_def)
  next
    case (Inr results)
    then have "length results \<le> 4" by (rule length_retriever_invoke)
    then have "py_slice_to k results = results" "py_slice_to 4 results = results"
      using k by (simp_all add: py_slice_to_all)
    with Inr \<open>length results \<le> 4\<close> show ?thesis by (simp add: search_def)
  qed
qed

text \<open>Five indexed texts and \<open>k = 10\<close>: four results.\<close>

theorem result_cap_witness:
  "(4::int) < 10 \<and> length (vectorstore five_texts) = 5 \<and>
   search emb_len sim_near five_texts ''qq'' 10 = Inr [''B'', ''A'', ''C'', ''D''] \<and>
   search emb_len sim_near five_texts ''qq'' 4 = Inr [''B'', ''A'', ''C'', ''D'']"
proof -
  have h: "(4::int) < 10" by simp
  have e: "search emb_len sim_near five_texts ''qq'' 4 = Inr [''B'', ''A'', ''C'', ''D'']"
    by code_simp
  have n: "length (vectorstore five_texts) = 5" by code_simp
  from result_cap[OF h, of emb_len sim_near five_texts "''qq''"] e
  have "search emb_len sim_near five_texts ''qq'' 10 = Inr [''B'', ''A'', ''C'', ''D'']"
    by auto
  with h e n show ?thesis by blast
qed

section \<open>Batch questions\<close>

lemma chain_batch_Inr:
  "chain_batch emb sim generate st qs = Inr as \<Longrightarrow>
     length as = length qs \<and>
     (\<forall>i < length qs. chain_invoke emb sim generate st (qs ! i) = Inr (as ! i))"
proof (induction qs arbitrary: as)
  case Nil
  then show ?case by simp
next
  case (Cons q qs)
  then show ?case
    by (auto split: sum.splits simp: nth_Cons split: nat.splits)
qed

lemma chain_batch_Inl:
  "chain_batch emb sim generate st qs = Inl e \<Longrightarrow>
     \<exists>j < length qs. chain_invoke emb sim generate st (qs ! j) = Inl e \<and>
        (\<forall>i < j. \<exists>a. chain_invoke emb sim generate st (qs ! i) = Inr a)"
proof (induction qs)
  case Nil
  then show ?case by simp
next
  case (Cons q qs)
  show ?case
  proof (cases "chain_invoke emb sim generate st q")
    case (Inl e')
    with Cons.prems have "e' = e" by simp
    with Inl have "chain_invoke emb sim generate st ((q # qs) ! 0) = Inl e \<and>
        (\<forall>i < 0. \<exists>a. chain_invoke emb sim generate st ((q # qs) ! i) = Inr a)" by simp
    then show ?thesis by blast
  next
    case (Inr a)
    with Cons.prems have "chain_batch emb sim generate st qs = Inl e"
      by (simp split: sum.splits)
    from Cons.IH[OF this] obtain j where j: "j < length qs"
      "chain_invoke emb sim generate st (qs ! j) = Inl e"
      "\<forall>i < j. \<exists>a. chain_invoke emb sim generate st (qs ! i) = Inr a" by blast
    have "\<forall>i < Suc j. \<exists>a. chain_invoke emb sim generate st ((q # qs) ! i) = Inr a"
      using j(3) Inr by (auto simp: nth_Cons split: nat.splits)
    with j(1,2) have "Suc j < length (q # qs) \<and>
        chain_invoke emb sim generate st ((q # qs) ! Suc j) = Inl e \<and>
        (\<forall>i < Suc j. \<exists>a. chain_invoke emb sim generate st ((q # qs) ! i) = Inr a)" by simp
    then show ?thesis by blast
  qed
qed

lemma chain_batch_fails:
  "q \<in> set qs \<Longrightarrow> chain_invoke emb sim generate st q = Inl e \<Longrightarrow>
     \<exists>e'. chain_batch emb sim generate st qs = Inl e'"
  by (induction qs) (auto split: sum.splits)

lemma chain_batch_succeeds:
  "(\<forall>q \<in> set qs. \<exists>a. chain_invoke emb sim generate st q = Inr a) \<Longrightarrow>
     \<exists>as. chain_batch emb sim generate st qs = Inr as"
  by (induction qs) (auto split: sum.splits)

text \<open>
  C4 as stated fails on a batch of one question that succeeds alone and one whose
  generation fails: the failure leaves \<open>chain.batch\<close> as an exception, and the
  \<open>except\<close> clause of \<open>batch_ask\<close> marks every question of the batch as failed, the
  good one too.
\<close>

theorem batch_independence_counterexample:
  "chain_invoke emb_len sim_near gen_demo two_texts ''good'' = Inr ''an answer'' \<and>
   batch_ask emb_len sim_near gen_demo two_texts [''good'', ''bad''] =
     Inr [[(''question'', PyStr ''good''), (''answer'', PyStr ''Batch error: rate limit''),
           (''error'', PyBool True)],
          [(''question'', PyStr ''bad''), (''answer'', PyStr ''Batch error: rate limit''),
           (''error'', PyBool True)]]"
  by code_simp

text \<open>
  C4 (batch), amended. \<open>batch_ask\<close> never raises and returns one result per question, in
  the order of the input. When the chain fails on some question of the batch, every
  result consists of its question, the answer \<open>Batch error: \<close> followed by the message of
  the first failure in input order, and \<open>error = True\<close>. When the chain succeeds on all
  of them, result \<open>i\<close> consists of question \<open>i\<close>, the answer generated for it and
  \<open>batch_index = i\<close>, with no \<open>error\<close> entry.
\<close>

theorem batch_all_or_nothing:
  "(\<exists>rs. batch_ask emb sim generate st qs = Inr rs \<and> length rs = length qs) \<and>
   ((\<exists>q \<in> set qs. \<exists>e. chain_invoke emb sim generate st q = Inl e) \<longrightarrow>
      (\<exists>j e. j < length qs \<and> chain_invoke emb sim generate st (qs ! j) = Inl e \<and>
         (\<forall>i < j. \<exists>a. chain_invoke emb sim generate st (qs ! i) = Inr a) \<and>
         batch_ask emb sim generate st qs =
           Inr (map (\<lambda>q. [(''question'', PyStr q),
                           (''answer'', PyStr (''Batch error: '' @ str_of e)),
                           (''error'', PyBool True)]) qs))) \<and>
   ((\<forall>q \<in> set qs. \<exists>a. chain_invoke emb sim generate st q = Inr a) \<longrightarrow>
      (\<exists>rs. batch_ask emb sim generate st qs = Inr rs \<and> length rs = length qs \<and>
            (\<forall>i < length qs. \<exists>a. chain_invoke emb sim generate st (qs ! i) = Inr a \<and>
                rs ! i = [(''question'', PyStr (qs ! i)), (''answer'', PyStr a),
                          (''batch_index'', PyInt (int i))])))"
proof (intro conjI impI)
  show "\<exists>rs. batch_ask emb sim generate st qs = Inr rs \<and> length rs = length qs"
  proof (cases "chain_batch emb sim generate st qs")
    case (Inl e)
    then show ?thesis by (simp add: batch_ask_def)
  next
    case (Inr as)
    from chain_batch_Inr[OF Inr] have "length as = length qs" by simp
    with Inr show ?thesis by (simp add: batch_ask_def)
  qed
next
  assume "\<exists>q \<in> set qs. \<exists>e. chain_invoke emb sim generate st q = Inl e"
  then obtain e where e: "chain_batch emb sim generate st qs = Inl e"
    using chain_batch_fails by blast
  from chain_batch_Inl[OF e] obtain j where "j < length qs"
    "chain_invoke emb sim generate st (qs ! j) = Inl e"
    "\<forall>i < j. \<exists>a. chain_invoke emb sim generate st (qs ! i) = Inr a" by blast
  moreover from e have "batch_ask emb sim generate st qs =
           Inr (map (\<lambda>q. [(''question'', PyStr q),
                           (''answer'', PyStr (''Batch error: '' @ str_of e)),
                           (''error'', PyBool True)]) qs)"
    by (simp add: batch_ask_def)
  ultimately show "\<exists>j e. j < length qs \<and> chain_invoke emb sim generate st (qs ! j) = Inl e \<and>
         (\<forall>i < j. \<exists>a. chain_invoke emb sim generate st (qs ! i) = Inr a) \<and>
         batch_ask emb sim generate st qs =
           Inr (map (\<lambda>q. [(''question'', PyStr q),
                           (''answer'', PyStr (''Batch error: '' @ str_of e)),
                           (''error'', PyBool True)]) qs)"
    by blast
next
  assume "\<forall>q \<in> set qs. \<exists>a. chain_invoke emb sim generate st q = Inr a"
  then obtain as where as: "chain_batch emb sim generate st qs = Inr as"
    using chain_batch_succeeds by blast
  from chain_batch_Inr[OF as] have len: "length as = length qs"
    and each: "\<forall>i < length qs. chain_invoke emb sim generate st (qs ! i) = Inr (as ! i)"
    by simp_all
  show "\<exists>rs. batch_ask emb sim generate st qs = Inr rs \<and> length rs = length qs \<and>
            (\<forall>i < length qs. \<exists>a. chain_invoke emb sim generate st (qs ! i) = Inr a \<and>
                rs ! i = [(''question'', PyStr (qs ! i)), (''answer'', PyStr a),
                          (''batch_index'', PyInt (int i))])"
    using as len each by (simp add: batch_ask_def nth_enumerate_eq)
qed

text \<open>A batch with a failing question, and a batch without.\<close>

theorem batch_all_or_nothing_witness:
  "chain_invoke emb_len sim_near gen_demo two_texts ''bad'' = Inl (UpstreamError ''rate limit'') \<and>
   batch_ask emb_len sim_near gen_demo two_texts [''good'', ''bad''] =
     Inr [[(''question'', PyStr ''good''), (''answer'', PyStr ''Batch error: rate limit''),
           (''error'', PyBool True)],
          [(''question'', PyStr ''bad''), (''answer'', PyStr ''Batch error: rate limit''),
           (''error'', PyBool True)]] \<and>
   chain_invoke emb_len sim_near gen_demo two_texts ''good'' = Inr ''an answer'' \<and>
   chain_invoke emb_len sim_near gen_demo two_texts ''fine'' = Inr ''an answer'' \<and>
   batch_ask emb_len sim_near gen_demo two_texts [''good'', ''fine''] =
     Inr [[(''question'', PyStr ''good''), (''answer'', PyStr ''an answer''),
           (''batch_index'', PyInt 0)],
          [(''question'', PyStr ''fine''), (''answer'', PyStr ''an answer''),
           (''batch_index'', PyInt 1)]]"
proof -
  have b: "chain_invoke emb_len sim_near gen_demo two_texts ''bad'' = Inl (UpstreamError ''rate limit'')"
    by code_simp
  have g: "chain_invoke emb_len sim_near gen_demo two_texts ''good'' = Inr ''an answer''"
    by code_simp
  have f: "chain_invoke emb_len sim_near gen_demo two_texts ''fine'' = Inr ''an answer''"
    by code_simp
  have h1: "\<exists>q \<in> set [''good'', ''bad'']. \<exists>e. chain_invoke emb_len sim_near gen_demo two_texts q = Inl e"
    using b by simp
  have h2: "\<forall>q \<in> set [''good'', ''fine'']. \<exists>a. chain_invoke emb_len sim_near gen_demo two_texts q = Inr a"
    using g f by simp
  note u1 = batch_all_or_nothing[of emb_len sim_near gen_demo two_texts "[''good'', ''bad'']"]
  note u2 = batch_all_or_nothing[of emb_len sim_near gen_demo two_texts "[''good'', ''fine'']"]
  from u1 h1 obtain j e where j: "j < length [''good'', ''bad'']"
    and je: "chain_invoke emb_len sim_near gen_demo two_texts ([''good'', ''bad''] ! j) = Inl e"
    and rs: "batch_ask emb_len sim_near gen_demo two_texts [''good'', ''bad''] =
           Inr (map (\<lambda>q. [(''question'', PyStr q),
                           (''answer'', PyStr (''Batch error: '' @ str_of e)),
                           (''error'', PyBool True)]) [''good'', ''bad''])"
    by blast
  from j have "j = 0 \<or> j = 1" by auto
  with je g b have "e = UpstreamError ''rate limit''" by auto
  with rs have c1: "batch_ask emb_len sim_near gen_demo two_texts [''good'', ''bad''] =
     Inr [[(''question'', PyStr ''good''), (''answer'', PyStr ''Batch error: rate limit''),
           (''error'', PyBool True)],
          [(''question'', PyStr ''bad''), (''answer'', PyStr ''Batch error: rate limit''),
           (''error'', PyBool True)]]"
    by simp
  from u2 h2 obtain rs' where rs': "batch_ask emb_len sim_near gen_demo two_texts [''good'', ''fine''] = Inr rs'"
    and len: "length rs' = length [''good'', ''fine'']"
    and each: "\<forall>i < length [''good'', ''fine'']. \<exists>a. chain_invoke emb_len sim_near gen_demo two_texts ([''good'', ''fine''] ! i) = Inr a \<and>
                rs' ! i = [(''question'', PyStr ([''good'', ''fine''] ! i)), (''answer'', PyStr a),
                          (''batch_index'', PyInt (int i))]"
    by blast
  from each g have e0: "rs' ! 0 = [(''question'', PyStr ''good''), (''answer'', PyStr ''an answer''),
                          (''batch_index'', PyInt 0)]"
    by force
  from each f have e1: "rs' ! 1 = [(''question'', PyStr ''fine''), (''answer'', PyStr ''an answer''),
                          (''batch_index'', PyInt 1)]"
    by force
  from len have "rs' = [rs' ! 0, rs' ! 1]"
    by (intro nth_equalityI) (auto simp: nth_Cons split: nat.splits)
  with e0 e1 rs' have c2: "batch_ask emb_len sim_near gen_demo two_texts [''good'', ''fine''] =
     Inr [[(''question'', PyStr ''good''), (''answer'', PyStr ''an answer''),
           (''batch_index'', PyInt 0)],
          [(''question'', PyStr ''fine''), (''answer'', PyStr ''an answer''),
           (''batch_index'', PyInt 1)]]"
    by simp
  from b c1 g f c2 show ?thesis by blast
qed

section \<open>The application states\<close>

lemma setup_retrieval_eq:
  "setup_retrieval emb uuid4 ts te bs be ims a =
     (fst (add_all_content emb uuid4 ts te bs be ims (retriever a)),
      a\<lparr>retriever := snd (add_all_content emb uuid4 ts te bs be ims (retriever a)),
        qa_chain := (qa_chain a \<or>
                     fst (add_all_content emb uuid4 ts te bs be ims (retriever a)) = Inr ())\<rparr>)"
  by (cases "add_all_content emb uuid4 ts te bs be ims (retriever a)")
     (auto simp: setup_retrieval_def split: sum.splits)

lemma setup_retrieval_qa_chain:
  "qa_chain (snd (setup_retrieval emb uuid4 ts te bs be ims a)) =
     (qa_chain a \<or> fst (setup_retrieval emb uuid4 ts te bs be ims a) = Inr ())"
  by (simp add: setup_retrieval_eq)

lemma step_keeps_chain: "qa_chain a \<Longrightarrow> qa_chain (step emb uuid4 c a)"
  by (cases c) (simp_all add: setup_retrieval_qa_chain)

lemma trace_nonempty [simp]: "trace emb uuid4 cs a \<noteq> []"
  by (cases cs) simp_all

lemma hd_trace [simp]: "hd (trace emb uuid4 cs a) = a"
  by (cases cs) simp_all

lemma trace_Cons_step:
  "\<exists>xs. trace emb uuid4 cs a = a # xs"
  by (cases cs) simp_all

lemma trace_built:
  "qa_chain a \<Longrightarrow> transitions (map qa_chain (trace emb uuid4 cs a)) = 0 \<and>
     qa_chain (last (trace emb uuid4 cs a))"
proof (induction cs arbitrary: a)
  case Nil
  then show ?case by simp
next
  case (Cons c cs)
  from Cons.prems have b: "qa_chain (step emb uuid4 c a)" by (rule step_keeps_chain)
  obtain xs where t: "trace emb uuid4 cs (step emb uuid4 c a) = step emb uuid4 c a # xs"
    using trace_Cons_step by blast
  from Cons.IH[OF b] Cons.prems b show ?case by (simp add: t)
qed

lemma trace_transitions:
  "transitions (map qa_chain (trace emb uuid4 cs a)) =
     (if \<not> qa_chain a \<and> qa_chain (last (trace emb uuid4 cs a)) then 1 else 0)"
proof (induction cs arbitrary: a)
  case Nil
  then show ?case by simp
next
  case (Cons c cs)
  obtain xs where t: "trace emb uuid4 cs (step emb uuid4 c a) = step emb uuid4 c a # xs"
    using trace_Cons_step by blast
  show ?case
  proof (cases "qa_chain a")
    case True
    from trace_built[OF True, of emb uuid4 "c # cs"] True show ?thesis by simp
  next
    case False
    show ?thesis
    proof (cases "qa_chain (step emb uuid4 c a)")
      case True
      from trace_built[OF True, of emb uuid4 cs] True False show ?thesis
        by (simp add: t)
    next
      case nb: False
      from Cons.IH[of "step emb uuid4 c a"] nb False show ?thesis
        by (simp add: t)
    qed
  qed
qed

lemma length_trace [simp]: "length (trace emb uuid4 cs a) = Suc (length cs)"
  by (induction cs arbitrary: a) simp_all

lemma trace_last_built:
  "qa_chain (last (trace emb uuid4 cs a)) \<longleftrightarrow>
     qa_chain a \<or>
     (\<exists>i < length cs. \<exists>ts te bs be ims. cs ! i = SetupRetrieval ts te bs be ims \<and>
        fst (setup_retrieval emb uuid4 ts te bs be ims (trace emb uuid4 cs a ! i)) = Inr ())"
proof (induction cs arbitrary: a)
  case Nil
  then show ?case by simp
next
  case (Cons c cs)
  let ?a' = "step emb uuid4 c a"
  let ?P = "\<lambda>cs a i. \<exists>ts te bs be ims. cs ! i = SetupRetrieval ts te bs be ims \<and>
        fst (setup_retrieval emb uuid4 ts te bs be ims (trace emb uuid4 cs a ! i)) = Inr ()"
  have shift: "(\<exists>i < length (c # cs). ?P (c # cs) a i) \<longleftrightarrow>
               ?P (c # cs) a 0 \<or> (\<exists>i < length cs. ?P cs ?a' i)"
  proof
    assume "\<exists>i < length (c # cs). ?P (c # cs) a i"
    then obtain i where i: "i < length (c # cs)" "?P (c # cs) a i" by blast
    show "?P (c # cs) a 0 \<or> (\<exists>i < length cs. ?P cs ?a' i)"
    proof (cases i)
      case 0
      with i show ?thesis by blast
    next
      case (Suc n)
      with i have "n < length cs" "?P cs ?a' n" by simp_all
      then show ?thesis by blast
    qed
  next
    assume "?P (c # cs) a 0 \<or> (\<exists>i < length cs. ?P cs ?a' i)"
    then show "\<exists>i < length (c # cs). ?P (c # cs) a i"
    proof
      assume "?P (c # cs) a 0"
      then show ?thesis by (intro exI[of _ 0]) simp
    next
      assume "\<exists>i < length cs. ?P cs ?a' i"
      then obtain n where "n < length cs" "?P cs ?a' n" by blast
      then show ?thesis by (intro exI[of _ "Suc n"]) simp
    qed
  qed
  have first: "qa_chain ?a' \<longleftrightarrow> qa_chain a \<or> ?P (c # cs) a 0"
    by (cases c) (auto simp: setup_retrieval_qa_chain)
  have "qa_chain (last (trace emb uuid4 (c # cs) a)) \<longleftrightarrow> qa_chain (last (trace emb uuid4 cs ?a'))"
    by simp
  also have "\<dots> \<longleftrightarrow> qa_chain ?a' \<or> (\<exists>i < length cs. ?P cs ?a' i)"
    by (rule Cons.IH)
  also have "\<dots> \<longleftrightarrow> qa_chain a \<or> (\<exists>i < length (c # cs). ?P (c # cs) a i)"
    unfolding shift first by blast
  finally show ?case .
qed

text \<open>
  C8 as stated fails in three places. Before any ingestion the \<open>error\<close> entry of the
  result is the message string, not the boolean. A \<open>setup_retrieval\<close> with nothing to
  ingest builds the chain all the same, and the next question gets a normal answer
  while both stores are empty. A first \<open>setup_retrieval\<close> whose tables do not match
  raises after the text pair is written, and leaves the chain unbuilt.
\<close>

theorem uninitialized_state_counterexample:
  "ask_question emb_len sim_near gen_demo (init_app []) ''What is in the image?'' =
     Inr [(''error'', PyStr ''Q&A chain not initialized'')] \<and>
   PyStr ''Q&A chain not initialized'' \<noteq> PyBool True \<and>
   setup_retrieval emb_len uuid_seq [] [] [] [] [] (init_app []) =
     (Inr (), \<lparr>retriever = init_retriever [], qa_chain = True\<rparr>) \<and>
   ask_question emb_len sim_near gen_demo \<lparr>retriever = init_retriever [], qa_chain = True\<rparr>
       ''What is in the image?'' =
     Inr [(''question'', PyStr ''What is in the image?''), (''answer'', PyStr ''an answer''),
          (''context_used'', PyInt 0),
          (''retriever_stats'',
           PyDict [(''vector_documents'', PyInt 0), (''stored_documents'', PyInt 0),
                   (''collection_name'', PyStr ''multimodal_summaries'')])] \<and>
   setup_retrieval emb_len uuid_seq [''s''] [''A''] [''t1'', ''t2''] [''T''] [] (init_app []) =
     (Inl (ValueError ''Mismatch in table summaries and original content lengths''),
      \<lparr>retriever =
         \<lparr>vectorstore = [(\<lparr>page_content = ''s'', meta_doc_id = ''id-'',
                            meta_content_type = ''text'', meta_index = 0\<rparr>, 1)],
          docstore = [(''id-'', ''A'')], uuid_count = 1\<rparr>,
       qa_chain = False\<rparr>)"
  by code_simp

text \<open>
  C8 (uninitialised state), amended. While the chain is not built, \<open>ask_question\<close>
  returns for every question the dictionary whose only entry is \<open>error\<close> with the
  message \<open>Q&A chain not initialized\<close>; once it is built, \<open>ask_question\<close> is \<open>ask\<close> on the
  current retriever. \<open>setup_retrieval\<close> hands its five lists to \<open>add_all_content\<close>, keeps
  the stores that call leaves, and builds the chain iff the call returns normally,
  whether or not anything was ingested; a chain once built stays. So in every session
  the chain goes from not built to built at most once, and it does so exactly when the
  session starts without the chain and some \<open>setup_retrieval\<close> of it returns normally.
\<close>

theorem uninitialized_state:
  "(\<not> qa_chain a \<longrightarrow>
      ask_question emb sim generate a question =
        Inr [(''error'', PyStr ''Q&A chain not initialized'')]) \<and>
   (qa_chain a \<longrightarrow>
      ask_question emb sim generate a question = ask emb sim generate (retriever a) question) \<and>
   setup_retrieval emb uuid4 ts te bs be ims a =
     (fst (add_all_content emb uuid4 ts te bs be ims (retriever a)),
      a\<lparr>retriever := snd (add_all_content emb uuid4 ts te bs be ims (retriever a)),
        qa_chain := (qa_chain a \<or>
                     fst (add_all_content emb uuid4 ts te bs be ims (retriever a)) = Inr ())\<rparr>) \<and>
   transitions (map qa_chain (trace emb uuid4 cs a)) \<le> 1 \<and>
   (transitions (map qa_chain (trace emb uuid4 cs a)) = 1 \<longleftrightarrow>
      \<not> qa_chain a \<and>
      (\<exists>i < length cs. \<exists>ts te bs be ims. cs ! i = SetupRetrieval ts te bs be ims \<and>
         fst (setup_retrieval emb uuid4 ts te bs be ims (trace emb uuid4 cs a ! i)) = Inr ()))"
proof (intro conjI)
  show "\<not> qa_chain a \<longrightarrow>
      ask_question emb sim generate a question =
        Inr [(''error'', PyStr ''Q&A chain not initialized'')]"
    by (simp add: ask_question_def)
  show "qa_chain a \<longrightarrow>
      ask_question emb sim generate a question = ask emb sim generate (retriever a) question"
    by (simp add: ask_question_def)
  show "setup_retrieval emb uuid4 ts te bs be ims a =
     (fst (add_all_content emb uuid4 ts te bs be ims (retriever a)),
      a\<lparr>retriever := snd (add_all_content emb uuid4 ts te bs be ims (retriever a)),
        qa_chain := (qa_chain a \<or>
                     fst (add_all_content emb uuid4 ts te bs be ims (retriever a)) = Inr ())\<rparr>)"
    by (rule setup_retrieval_eq)
  show "transitions (map qa_chain (trace emb uuid4 cs a)) \<le> 1"
    by (simp add: trace_transitions)
  show "transitions (map qa_chain (trace emb uuid4 cs a)) = 1 \<longleftrightarrow>
      \<not> qa_chain a \<and>
      (\<exists>i < length cs. \<exists>ts te bs be ims. cs ! i = SetupRetrieval ts te bs be ims \<and>
         fst (setup_retrieval emb uuid4 ts te bs be ims (trace emb uuid4 cs a ! i)) = Inr ())"
    unfolding trace_transitions using trace_last_built[of emb uuid4 cs a] by auto
qed

text \<open>
  A session that asks before any ingestion, fails one ingestion, completes the next,
  asks again and ingests again.
\<close>

theorem uninitialized_state_witness:
  "\<not> qa_chain (init_app [] :: nat app) \<and>
   ask_question emb_len sim_near gen_demo (init_app []) ''What is in the image?'' =
     Inr [(''error'', PyStr ''Q&A chain not initialized'')] \<and>
   demo_session ! 2 = SetupRetrieval [''s''] [''A''] [] [] [''a chart''] \<and>
   fst (setup_retrieval emb_len uuid_seq [''s''] [''A''] [] [] [''a chart'']
          (trace emb_len uuid_seq demo_session (init_app []) ! 2)) = Inr () \<and>
   transitions (map qa_chain (trace emb_len uuid_seq demo_session (init_app []))) = 1"
proof -
  have h1: "\<not> qa_chain (init_app [] :: nat app)" by (simp add: init_app_def)
  have h2: "demo_session ! 2 = SetupRetrieval [''s''] [''A''] [] [] [''a chart'']"
    by (simp add: demo_session_def)
  have h3: "fst (setup_retrieval emb_len uuid_seq [''s''] [''A''] [] [] [''a chart'']
          (trace emb_len uuid_seq demo_session (init_app []) ! 2)) = Inr ()"
    by code_simp
  have h4: "(2::nat) < length demo_session" by (simp add: demo_session_def)
  note u = uninitialized_state[where a="init_app [] :: nat app" and emb=emb_len and sim=sim_near
      and generate=gen_demo and question="''What is in the image?''" and ?uuid4.0=uuid_seq
      and cs=demo_session]
  from u h1 have c1: "ask_question emb_len sim_near gen_demo (init_app []) ''What is in the image?'' =
     Inr [(''error'', PyStr ''Q&A chain not initialized'')]"
    by blast
  from h2 h3 h4 have "\<exists>i < length demo_session. \<exists>ts te bs be ims.
      demo_session ! i = SetupRetrieval ts te bs be ims \<and>
      fst (setup_retrieval emb_len uuid_seq ts te bs be ims
             (trace emb_len uuid_seq demo_session (init_app []) ! i)) = Inr ()"
    by blast
  with u h1 have c3: "transitions (map qa_chain (trace emb_len uuid_seq demo_session (init_app []))) = 1"
    by blast
  from h1 c1 h2 h3 c3 show ?thesis by blast
qed

lemma demo_session_trace:
  "map qa_chain (trace emb_len uuid_seq demo_session (init_app [])) =
     [False, False, False, True, True, True]"
  by code_simp

section \<open>Image ingestion\<close>

lemma add_all_content_image_only:
  "add_all_content emb uuid4 [] [] [] [] s st = add_documents_to_retriever emb uuid4 s s ''image'' st"
  by (simp add: add_all_content_def add_documents_to_retriever_def)

lemma add_all_content_steps:
  assumes "add_all_content emb uuid4 ts te bs be s st = (Inr (), st')"
  shows "\<exists>st1 st2.
           add_documents_to_retriever emb uuid4 ts te ''text'' st = (Inr (), st1) \<and>
           add_documents_to_retriever emb uuid4 bs be ''table'' st1 = (Inr (), st2) \<and>
           add_documents_to_retriever emb uuid4 s s ''image'' st2 = (Inr (), st')"
proof -
  have guard: "(if xs \<noteq> [] \<and> ys \<noteq> [] then add_documents_to_retriever emb uuid4 xs ys ctype x
                else (Inr (), x)) = add_documents_to_retriever emb uuid4 xs ys ctype x"
    for xs ys ctype and x :: "'a retriever_state"
    by (auto simp: add_documents_to_retriever_def)
  have guard': "(if s \<noteq> [] then add_documents_to_retriever emb uuid4 s s ''image'' x
                else (Inr (), x)) = add_documents_to_retriever emb uuid4 s s ''image'' x"
    for x :: "'a retriever_state"
    by (auto simp: add_documents_to_retriever_def)
  from assms show ?thesis
    unfolding add_all_content_def guard guard'
    by (auto split: prod.splits sum.splits)
qed

lemma ingest_counter:
  assumes "add_documents_to_retriever emb uuid4 xs ys ctype st = (Inr (), st')"
  shows "uuid_count st' = uuid_count st + (if xs \<noteq> [] \<and> ys \<noteq> [] then length xs else 0)"
    and "xs \<noteq> [] \<Longrightarrow> ys \<noteq> [] \<Longrightarrow> length xs = length ys"
  using assms
  by (auto simp: add_documents_to_retriever_def Let_def split: if_splits sum.splits)

lemma ingest_vectorstore_mono:
  assumes "add_documents_to_retriever emb uuid4 xs ys ctype st = (r, st')"
  shows "set (vectorstore st) \<subseteq> set (vectorstore st')"
  using assms
  by (auto simp: add_documents_to_retriever_def add_documents_def Let_def
           split: if_splits sum.splits)

lemma map_of_mset_other:
  "k \<notin> fst ` set kvs \<Longrightarrow> map_of (mset kvs m) k = map_of m k"
proof -
  assume "k \<notin> fst ` set kvs"
  then have "k \<notin> fst ` set (rev kvs)" by simp
  then have "map_of (rev kvs) k = None" by (auto simp: map_of_eq_None_iff)
  then show ?thesis by (simp add: map_of_mset map_add_def)
qed

lemma ingest_docstore_frame:
  assumes step: "add_documents_to_retriever emb uuid4 xs ys ctype st = (r, st')"
    and fresh: "inj uuid4" and n: "n < uuid_count st"
  shows "map_of (docstore st') (uuid4 n) = map_of (docstore st) (uuid4 n)"
proof (cases "docstore st' = docstore st")
  case True
  then show ?thesis by simp
next
  case False
  with step have d: "docstore st' =
      mset (zip (map uuid4 [uuid_count st ..< uuid_count st + length xs]) ys) (docstore st)"
    by (auto simp: add_documents_to_retriever_def Let_def split: if_splits sum.splits)
  have "uuid4 n \<notin> fst ` set (zip (map uuid4 [uuid_count st ..< uuid_count st + length xs]) ys)"
  proof
    assume "uuid4 n \<in> fst ` set (zip (map uuid4 [uuid_count st ..< uuid_count st + length xs]) ys)"
    then obtain y where "(uuid4 n, y) \<in> set (zip (map uuid4 [uuid_count st ..< uuid_count st + length xs]) ys)"
      by force
    then have "uuid4 n \<in> set (map uuid4 [uuid_count st ..< uuid_count st + length xs])"
      by (rule set_zip_leftD)
    then obtain m where "uuid4 n = uuid4 m" "uuid_count st \<le> m" by auto
    with fresh have "n = m" by (simp add: inj_eq)
    with \<open>uuid_count st \<le> m\<close> n show False by simp
  qed
  then show ?thesis unfolding d by (rule map_of_mset_other)
qed

lemma distinct_fresh: "inj uuid4 \<Longrightarrow> distinct (map uuid4 [a ..< b])"
  by (simp add: distinct_map inj_on_def inj_def)

lemma search_hits:
  assumes qv: "emb query = Inr qv" and k: "0 \<le> k"
  shows "search emb sim st query k =
           Inr (map (\<lambda>h. the (map_of (docstore st) (meta_doc_id (fst h))))
                  (take (nat k)
                     (filter (\<lambda>h. map_of (docstore st) (meta_doc_id (fst h)) \<noteq> None)
                        (take search_kwargs_k
                           (rank_desc (\<lambda>entry. sim qv (snd entry)) (vectorstore st))))))"
  using k
  by (simp add: search_def retriever_invoke_Inr[where emb=emb and query=query and qv=qv, OF qv]
        py_slice_to_nonneg take_map)

text \<open>
  C6 (image special case). Let \<open>add_all_content\<close> return normally, with ids that never
  repeat. It has run the three ingestions in turn, the image one on the summaries
  paired with themselves. For every image \<open>i\<close> the vector store holds the summary
  document of \<open>s ! i\<close> and the document store holds \<open>s ! i\<close> itself under the same id;
  for every text \<open>j\<close> and every table \<open>l\<close> the summary document is paired with the
  original element \<open>te ! j\<close>, \<open>be ! l\<close>. A later \<open>search\<close> with \<open>k \<ge> 0\<close> returns, for the
  ranked hits that have stored content, exactly that content in ranking order; for a
  hit that is image \<open>i\<close> of this call, it is the summary \<open>s ! i\<close>.
\<close>

theorem image_special_case:
  assumes fresh: "inj uuid4"
    and ok: "add_all_content emb uuid4 ts te bs be s st = (Inr (), st')"
  shows "(\<exists>st1 st2.
            add_documents_to_retriever emb uuid4 ts te ''text'' st = (Inr (), st1) \<and>
            add_documents_to_retriever emb uuid4 bs be ''table'' st1 = (Inr (), st2) \<and>
            add_documents_to_retriever emb uuid4 s s ''image'' st2 = (Inr (), st')) \<and>
         (i < length s \<longrightarrow>
            (\<exists>v. emb (s ! i) = Inr v \<and>
               (\<lparr>page_content = s ! i,
                 meta_doc_id = uuid4 (uuid_count st
                    + (if ts \<noteq> [] \<and> te \<noteq> [] then length ts else 0)
                    + (if bs \<noteq> [] \<and> be \<noteq> [] then length bs else 0) + i),
                 meta_content_type = ''image'', meta_index = i\<rparr>, v) \<in> set (vectorstore st')) \<and>
            map_of (docstore st') (uuid4 (uuid_count st
                    + (if ts \<noteq> [] \<and> te \<noteq> [] then length ts else 0)
                    + (if bs \<noteq> [] \<and> be \<noteq> [] then length bs else 0) + i)) = Some (s ! i)) \<and>
         (ts \<noteq> [] \<longrightarrow> te \<noteq> [] \<longrightarrow> j < length ts \<longrightarrow>
            (\<exists>v. emb (ts ! j) = Inr v \<and>
               (\<lparr>page_content = ts ! j, meta_doc_id = uuid4 (uuid_count st + j),
                 meta_content_type = ''text'', meta_index = j\<rparr>, v) \<in> set (vectorstore st')) \<and>
            map_of (docstore st') (uuid4 (uuid_count st + j)) = Some (te ! j)) \<and>
         (bs \<noteq> [] \<longrightarrow> be \<noteq> [] \<longrightarrow> l < length bs \<longrightarrow>
            (\<exists>v. emb (bs ! l) = Inr v \<and>
               (\<lparr>page_content = bs ! l,
                 meta_doc_id = uuid4 (uuid_count st
                    + (if ts \<noteq> [] \<and> te \<noteq> [] then length ts else 0) + l),
                 meta_content_type = ''table'', meta_index = l\<rparr>, v) \<in> set (vectorstore st')) \<and>
            map_of (docstore st') (uuid4 (uuid_count st
                    + (if ts \<noteq> [] \<and> te \<noteq> [] then length ts else 0) + l)) = Some (be ! l)) \<and>
         (emb query = Inr qv \<longrightarrow> 0 \<le> k \<longrightarrow>
          hits = take (nat k)
                   (filter (\<lambda>h. map_of (docstore st') (meta_doc_id (fst h)) \<noteq> None)
                      (take search_kwargs_k
                         (rank_desc (\<lambda>entry. sim qv (snd entry)) (vectorstore st')))) \<longrightarrow>
            (\<exists>r. search emb sim st' query k = Inr r \<and> length r = length hits \<and>
               (\<forall>m < length hits.
                  map_of (docstore st') (meta_doc_id (fst (hits ! m))) = Some (r ! m) \<and>
                  (\<forall>i < length s.
                     meta_doc_id (fst (hits ! m)) = uuid4 (uuid_count st
                        + (if ts \<noteq> [] \<and> te \<noteq> [] then length ts else 0)
                        + (if bs \<noteq> [] \<and> be \<noteq> [] then length bs else 0) + i) \<longrightarrow>
                     r ! m = s ! i))))"
proof -
  define nt where "nt = (if ts \<noteq> [] \<and> te \<noteq> [] then length ts else 0)"
  define nb where "nb = (if bs \<noteq> [] \<and> be \<noteq> [] then length bs else 0)"
  from add_all_content_steps[OF ok] obtain st1 st2 where
    s1: "add_documents_to_retriever emb uuid4 ts te ''text'' st = (Inr (), st1)" and
    s2: "add_documents_to_retriever emb uuid4 bs be ''table'' st1 = (Inr (), st2)" and
    s3: "add_documents_to_retriever emb uuid4 s s ''image'' st2 = (Inr (), st')"
    by blast
  have c1: "uuid_count st1 = uuid_count st + nt"
    using ingest_counter(1)[OF s1] by (simp add: nt_def)
  have c2: "uuid_count st2 = uuid_count st + nt + nb"
    using ingest_counter(1)[OF s2] c1 by (simp add: nb_def)
  have img_pair: "(\<exists>v. emb (s ! i) = Inr v \<and>
               (\<lparr>page_content = s ! i, meta_doc_id = uuid4 (uuid_count st + nt + nb + i),
                 meta_content_type = ''image'', meta_index = i\<rparr>, v) \<in> set (vectorstore st')) \<and>
            map_of (docstore st') (uuid4 (uuid_count st + nt + nb + i)) = Some (s ! i)"
    if "i < length s" for i
    using ingest_written[OF s3 refl distinct_fresh[OF fresh] that] by (simp add: c2)
  have txt_pair: "(\<exists>v. emb (ts ! j) = Inr v \<and>
               (\<lparr>page_content = ts ! j, meta_doc_id = uuid4 (uuid_count st + j),
                 meta_content_type = ''text'', meta_index = j\<rparr>, v) \<in> set (vectorstore st')) \<and>
            map_of (docstore st') (uuid4 (uuid_count st + j)) = Some (te ! j)"
    if ne: "ts \<noteq> []" "te \<noteq> []" and j: "j < length ts"
  proof -
    have len: "length ts = length te" using ingest_counter(2)[OF s1 ne] .
    from ingest_written[OF s1 len distinct_fresh[OF fresh] j] obtain v where
      v: "emb (ts ! j) = Inr v"
         "(\<lparr>page_content = ts ! j, meta_doc_id = uuid4 (uuid_count st + j),
            meta_content_type = ''text'', meta_index = j\<rparr>, v) \<in> set (vectorstore st1)"
      and d: "map_of (docstore st1) (uuid4 (uuid_count st + j)) = Some (te ! j)"
      by blast
    have lt1: "uuid_count st + j < uuid_count st1" using c1 j ne by (simp add: nt_def)
    have lt2: "uuid_count st + j < uuid_count st2" using c2 lt1 c1 by simp
    from v(2) ingest_vectorstore_mono[OF s2] ingest_vectorstore_mono[OF s3]
    have "(\<lparr>page_content = ts ! j, meta_doc_id = uuid4 (uuid_count st + j),
            meta_content_type = ''text'', meta_index = j\<rparr>, v) \<in> set (vectorstore st')"
      by blast
    moreover have "map_of (docstore st') (uuid4 (uuid_count st + j)) = Some (te ! j)"
      using ingest_docstore_frame[OF s3 fresh lt2] ingest_docstore_frame[OF s2 fresh lt1] d
      by simp
    ultimately show ?thesis using v(1) by blast
  qed
  have tab_pair: "(\<exists>v. emb (bs ! l) = Inr v \<and>
               (\<lparr>page_content = bs ! l, meta_doc_id = uuid4 (uuid_count st + nt + l),
                 meta_content_type = ''table'', meta_index = l\<rparr>, v) \<in> set (vectorstore st')) \<and>
            map_of (docstore st') (uuid4 (uuid_count st + nt + l)) = Some (be ! l)"
    if ne: "bs \<noteq> []" "be \<noteq> []" and l: "l < length bs"
  proof -
    have len: "length bs = length be" using ingest_counter(2)[OF s2 ne] .
    from ingest_written[OF s2 len distinct_fresh[OF fresh] l] obtain v where
      v: "emb (bs ! l) = Inr v"
         "(\<lparr>page_content = bs ! l, meta_doc_id = uuid4 (uuid_count st + nt + l),
            meta_content_type = ''table'', meta_index = l\<rparr>, v) \<in> set (vectorstore st2)"
      and d: "map_of (docstore st2) (uuid4 (uuid_count st + nt + l)) = Some (be ! l)"
      by (auto simp: c1)
    have lt2: "uuid_count st + nt + l < uuid_count st2" using c2 l ne by (simp add: nb_def)
    from v(2) ingest_vectorstore_mono[OF s3]
    have "(\<lparr>page_content = bs ! l, meta_doc_id = uuid4 (uuid_count st + nt + l),
            meta_content_type = ''table'', meta_index = l\<rparr>, v) \<in> set (vectorstore st')"
      by blast
    moreover have "map_of (docstore st') (uuid4 (uuid_count st + nt + l)) = Some (be ! l)"
      using ingest_docstore_frame[OF s3 fresh lt2] d by simp
    ultimately show ?thesis using v(1) by blast
  qed
  have srch: "\<exists>r. search emb sim st' query k = Inr r \<and> length r = length hits \<and>
               (\<forall>m < length hits.
                  map_of (docstore st') (meta_doc_id (fst (hits ! m))) = Some (r ! m) \<and>
                  (\<forall>i < length s.
                     meta_doc_id (fst (hits ! m)) = uuid4 (uuid_count st + nt + nb + i) \<longrightarrow>
                     r ! m = s ! i))"
    if qv: "emb query = Inr qv" and k: "0 \<le> k"
      and hits: "hits = take (nat k)
                   (filter (\<lambda>h. map_of (docstore st') (meta_doc_id (fst h)) \<noteq> None)
                      (take search_kwargs_k
                         (rank_desc (\<lambda>entry. sim qv (snd entry)) (vectorstore st'))))"
  proof -
    define r where "r = map (\<lambda>h. the (map_of (docstore st') (meta_doc_id (fst h)))) hits"
    have sr: "search emb sim st' query k = Inr r"
      unfolding r_def hits
      by (rule search_hits[where emb=emb and query=query and qv=qv, OF qv k])
    have found: "map_of (docstore st') (meta_doc_id (fst h)) \<noteq> None" if "h \<in> set hits" for h
      using that unfolding hits by (auto dest: in_set_takeD)
    have look: "map_of (docstore st') (meta_doc_id (fst (hits ! m))) = Some (r ! m)"
      if "m < length hits" for m
      using found[OF nth_mem[OF that]] that by (auto simp: r_def)
    have img: "r ! m = s ! i"
      if "m < length hits" "i < length s"
         "meta_doc_id (fst (hits ! m)) = uuid4 (uuid_count st + nt + nb + i)" for m i
      using look[OF that(1)] img_pair[OF that(2)] that(3) by simp
    from sr look img show ?thesis by (auto simp: r_def)
  qed
  from s1 s2 s3 img_pair txt_pair tab_pair srch show ?thesis
    unfolding nt_def nb_def by blast
qed

lemma mixed_store_eq:
  "mixed_store =
     \<lparr>vectorstore =
        [(\<lparr>page_content = ''t'', meta_doc_id = ''id-'', meta_content_type = ''text'',
           meta_index = 0\<rparr>, 1),
         (\<lparr>page_content = ''tb'', meta_doc_id = ''id-x'', meta_content_type = ''table'',
           meta_index = 0\<rparr>, 2),
         (\<lparr>page_content = ''a chart'', meta_doc_id = ''id-xx'', meta_content_type = ''image'',
           meta_index = 0\<rparr>, 7),
         (\<lparr>page_content = ''a logo'', meta_doc_id = ''id-xxx'', meta_content_type = ''image'',
           meta_index = 1\<rparr>, 6)],
      docstore = [(''id-'', ''TEXT''), (''id-x'', ''<table/>''), (''id-xx'', ''a chart''),
                  (''id-xxx'', ''a logo'')],
      uuid_count = 4\<rparr>"
  by code_simp

text \<open>
  One text, one table and two image summaries ingested into an empty retriever, then a
  search whose best hit is the second image.
\<close>

theorem image_special_case_witness:
  "inj uuid_seq \<and>
   add_all_content emb_len uuid_seq [''t''] [''TEXT''] [''tb''] [''<table/>'']
       [''a chart'', ''a logo''] (init_retriever []) = (Inr (), mixed_store) \<and>
   map_of (docstore mixed_store) (uuid_seq 3) = Some ''a logo'' \<and>
   map_of (docstore mixed_store) (uuid_seq 0) = Some ''TEXT'' \<and>
   map_of (docstore mixed_store) (uuid_seq 1) = Some ''<table/>'' \<and>
   emb_len ''logo?'' = Inr 5 \<and>
   take (nat 1)
     (filter (\<lambda>h. map_of (docstore mixed_store) (meta_doc_id (fst h)) \<noteq> None)
        (take search_kwargs_k (rank_desc (\<lambda>entry. sim_near 5 (snd entry)) (vectorstore mixed_store))))
     = [(\<lparr>page_content = ''a logo'', meta_doc_id = uuid_seq 3, meta_content_type = ''image'',
          meta_index = 1\<rparr>, 6)] \<and>
   search emb_len sim_near mixed_store ''logo?'' 1 = Inr [''a logo'']"
proof -
  have h1: "add_all_content emb_len uuid_seq [''t''] [''TEXT''] [''tb''] [''<table/>'']
       [''a chart'', ''a logo''] (init_retriever []) = (Inr (), mixed_store)"
    by code_simp
  have h2: "emb_len ''logo?'' = Inr 5" by (simp add: emb_len_def)
  have h3: "take (nat 1)
     (filter (\<lambda>h. map_of (docstore mixed_store) (meta_doc_id (fst h)) \<noteq> None)
        (take search_kwargs_k (rank_desc (\<lambda>entry. sim_near 5 (snd entry)) (vectorstore mixed_store))))
     = [(\<lparr>page_content = ''a logo'', meta_doc_id = uuid_seq 3, meta_content_type = ''image'',
          meta_index = 1\<rparr>, 6)]"
    by code_simp
  have h0: "(0::int) \<le> 1" by simp
  have hi: "(1::nat) < length [''a chart'', ''a logo'']" by simp
  have hj: "(0::nat) < length [''t'']" and hl: "(0::nat) < length [''tb'']" by simp_all
  have ne: "[''t''] \<noteq> []" "[''TEXT''] \<noteq> []" "[''tb''] \<noteq> []" "[''<table/>''] \<noteq> []"
    by simp_all
  have off_img: "uuid_count (init_retriever [] :: nat retriever_state)
                   + (if [''t''] \<noteq> [] \<and> [''TEXT''] \<noteq> [] then length [''t''] else 0)
                   + (if [''tb''] \<noteq> [] \<and> [''<table/>''] \<noteq> [] then length [''tb''] else 0) + 1 = 3"
    by (simp add: init_retriever_def)
  have off_txt: "uuid_count (init_retriever [] :: nat retriever_state) + 0 = 0"
    by (simp add: init_retriever_def)
  have off_tab: "uuid_count (init_retriever [] :: nat retriever_state)
                   + (if [''t''] \<noteq> [] \<and> [''TEXT''] \<noteq> [] then length [''t''] else 0) + 0 = 1"
    by (simp add: init_retriever_def)
  note u = image_special_case[OF uuid_seq_inj h1, where i=1 and j=0 and l=0 and query="''logo?''"
      and qv=5 and k=1 and sim=sim_near
      and hits="[(\<lparr>page_content = ''a logo'', meta_doc_id = uuid_seq 3,
                    meta_content_type = ''image'', meta_index = 1\<rparr>, 6)]"]
  note u_img = u[THEN conjunct2, THEN conjunct1, rule_format, OF hi, unfolded off_img]
  note u_txt = u[THEN conjunct2, THEN conjunct2, THEN conjunct1, rule_format, OF ne(1) ne(2) hj,
      unfolded off_txt]
  note u_tab = u[THEN conjunct2, THEN conjunct2, THEN conjunct2, THEN conjunct1, rule_format,
      OF ne(3) ne(4) hl, unfolded off_tab]
  note u_srch = u[THEN conjunct2, THEN conjunct2, THEN conjunct2, THEN conjunct2, rule_format,
      OF h2 h0 h3[symmetric]]
  from u_img have p_img: "map_of (docstore mixed_store) (uuid_seq 3) = Some ''a logo''"
    by simp
  from u_txt have p_txt: "map_of (docstore mixed_store) (uuid_seq 0) = Some ''TEXT''"
    by simp
  from u_tab have p_tab: "map_of (docstore mixed_store) (uuid_seq 1) = Some ''<table/>''"
    by simp
  from u_srch obtain r where r: "search emb_len sim_near mixed_store ''logo?'' 1 = Inr r"
    and len: "length r = 1"
    and first: "map_of (docstore mixed_store) (uuid_seq 3) = Some (r ! 0)"
    by auto
  from first p_img have "r ! 0 = ''a logo''" by simp
  with len have "r = [''a logo'']" by (cases r) simp_all
  with r have sr: "search emb_len sim_near mixed_store ''logo?'' 1 = Inr [''a logo'']" by simp
  from uuid_seq_inj h1 p_img p_txt p_tab h2 h3 sr show ?thesis by blast
qed

end
